theory Spec2Isabelle
  imports Main "HOL-Library.AList" "HOL-Library.Sublist"
begin

section \<open>The file system seen by \<^verbatim>\<open>main.py\<close>\<close>

text \<open>
  The program mirrors one directory tree onto another with \<^verbatim>\<open>pathlib\<close> and
  \<^verbatim>\<open>shutil\<close>. A tree is a \<open>node\<close>: a regular file with its bytes and its
  modification time (the number \<^verbatim>\<open>st_mtime\<close> reports, taken as an integer stamp), or
  a directory with its entries in the order \<^verbatim>\<open>os.scandir\<close> lists them. A path is the
  list of names below a root, so \<open>[]\<close> is the root itself. Source and replica are two
  separate trees: the program is not modelled for a replica nested in the source, and
  only regular files and directories are modelled (no symbolic links).
\<close>

type_synonym path = "string list"

datatype node =
    File (content: string) (mtime: int)
  | Dir (entries: "(string \<times> node) list")

datatype error =
    FileNotFoundError | NotADirectoryError | IsADirectoryError | FileExistsError
  | PermissionError | ValueError | OverflowError

text \<open>
  Path resolution. A name below a regular file resolves to nothing: \<^verbatim>\<open>Path.exists\<close>,
  \<^verbatim>\<open>is_file\<close> and \<^verbatim>\<open>is_dir\<close> swallow ENOENT and ENOTDIR and answer False.
\<close>

fun lookup :: "node \<Rightarrow> path \<Rightarrow> node option" where
  "lookup n [] = Some n"
| "lookup (File c m) (x # xs) = None"
| "lookup (Dir es) (x # xs) =
     (case map_of es x of None \<Rightarrow> None | Some c \<Rightarrow> lookup c xs)"

definition path_exists :: "node \<Rightarrow> path \<Rightarrow> bool" where
  "path_exists t p = (case lookup t p of None \<Rightarrow> False | Some n \<Rightarrow> True)"

definition is_file :: "node \<Rightarrow> path \<Rightarrow> bool" where
  "is_file t p = (case lookup t p of Some (File c m) \<Rightarrow> True | _ \<Rightarrow> False)"

definition is_dir :: "node \<Rightarrow> path \<Rightarrow> bool" where
  "is_dir t p = (case lookup t p of Some (Dir es) \<Rightarrow> True | _ \<Rightarrow> False)"

text \<open>
  \<^verbatim>\<open>Path.rglob('*')\<close>, in the order of pathlib's recursive selector up to Python
  3.11: the entries of a directory, then the walk of each of its subdirectories in turn.
  Later versions list the same paths in another order; the proofs below use of the
  listing only that it holds every path that exists below the root
  (\<open>rglob_complete\<close>). On a root that is not a directory it produces nothing.
\<close>

fun rglob :: "path \<Rightarrow> node \<Rightarrow> path list" where
  "rglob p (File c m) = []"
| "rglob p (Dir es) =
     map (\<lambda>(k, c). p @ [k]) es @ concat (map (\<lambda>(k, c). rglob (p @ [k]) c) es)"

subsection \<open>The environment of a pass\<close>

text \<open>
  What the operating system adds to the tree: \<open>fault\<close> says which operations on the
  replica are refused for a reason outside the tree (permissions, a full disk); a refused
  operation raises and leaves the tree as it was. Only the four writing operations can
  be refused: the listing and the queries (\<^verbatim>\<open>exists\<close>, \<^verbatim>\<open>is_file\<close>,
  \<^verbatim>\<open>is_dir\<close>, \<^verbatim>\<open>stat\<close> of an existing path) are taken not to raise.
  \<open>dir_stat\<close> is the size and the modification time that \<^verbatim>\<open>stat\<close> reports for a
  replica directory, which depend on the file system. The two root paths are kept as the
  strings the log messages print.
\<close>

datatype fs_op = Copy2 path | Mkdir path | Unlink path | Rmtree path

record env =
  source_folder_path :: string
  replica_folder_path :: string
  fault :: "fs_op \<Rightarrow> bool"
  dir_stat :: "path \<Rightarrow> nat \<times> int"

definition stat :: "env \<Rightarrow> node \<Rightarrow> path \<Rightarrow> error + (nat \<times> int)" where
  "stat env t p =
     (case lookup t p of
        None \<Rightarrow> Inl FileNotFoundError
      | Some (File c m) \<Rightarrow> Inr (length c, m)
      | Some (Dir es) \<Rightarrow> Inr (dir_stat env p))"

subsection \<open>The operations of \<^verbatim>\<open>shutil\<close> and \<^verbatim>\<open>pathlib\<close> the pass calls\<close>

text \<open>
  Opening a path for writing: an existing regular file is replaced, a directory cannot be
  opened, a new name is added to an existing parent directory, and a missing or
  non-directory parent is an error. No directory is ever created.
\<close>

fun write_file :: "path \<Rightarrow> node \<Rightarrow> node \<Rightarrow> error + node" where
  "write_file [] f (File c m) = Inr f"
| "write_file [] f (Dir es) = Inl IsADirectoryError"
| "write_file (x # xs) f (File c m) = Inl NotADirectoryError"
| "write_file (x # xs) f (Dir es) =
     (case map_of es x of
        None \<Rightarrow> if xs = [] then Inr (Dir (es @ [(x, f)])) else Inl FileNotFoundError
      | Some c \<Rightarrow>
          (case write_file xs f c of
             Inl e \<Rightarrow> Inl e
           | Inr c' \<Rightarrow> Inr (Dir (AList.update x c' es))))"

text \<open>
  \<^verbatim>\<open>shutil.copy2(src, dst)\<close>: when \<open>dst\<close> is a directory the file is copied into
  it under the base name of \<open>src\<close>; otherwise \<open>dst\<close> is opened for writing. The copy has
  the bytes and the modification time of the source file \<open>f\<close>.
\<close>

definition copy2 :: "env \<Rightarrow> node \<Rightarrow> string \<Rightarrow> path \<Rightarrow> node \<Rightarrow> error + node" where
  "copy2 env f name dst t =
     (if fault env (Copy2 dst) then Inl PermissionError
      else case lookup t dst of
             Some (Dir es) \<Rightarrow> write_file (dst @ [name]) f t
           | _ \<Rightarrow> write_file dst f t)"

text \<open>
  \<^verbatim>\<open>Path.mkdir(parents=True)\<close>: the missing ancestors are created with the directory;
  an existing target is an error (\<^verbatim>\<open>exist_ok\<close> is False), and so is an ancestor that is
  a regular file.
\<close>

fun new_dirs :: "path \<Rightarrow> node" where
  "new_dirs [] = Dir []"
| "new_dirs (x # xs) = Dir [(x, new_dirs xs)]"

fun mkdir_parents :: "path \<Rightarrow> node \<Rightarrow> error + node" where
  "mkdir_parents [] t = Inl FileExistsError"
| "mkdir_parents (x # xs) (File c m) = Inl NotADirectoryError"
| "mkdir_parents (x # xs) (Dir es) =
     (case map_of es x of
        None \<Rightarrow> Inr (Dir (es @ [(x, new_dirs xs)]))
      | Some c \<Rightarrow>
          (if xs = [] then Inl FileExistsError
           else case mkdir_parents xs c of
                  Inl e \<Rightarrow> Inl e
                | Inr c' \<Rightarrow> Inr (Dir (AList.update x c' es))))"

definition mkdir :: "env \<Rightarrow> path \<Rightarrow> node \<Rightarrow> error + node" where
  "mkdir env p t = (if fault env (Mkdir p) then Inl PermissionError else mkdir_parents p t)"

text \<open>Taking an entry, with everything below it, out of its parent directory.\<close>

fun remove :: "path \<Rightarrow> node \<Rightarrow> error + node" where
  "remove [] t = Inl PermissionError"
| "remove (x # xs) (File c m) = Inl NotADirectoryError"
| "remove (x # xs) (Dir es) =
     (case map_of es x of
        None \<Rightarrow> Inl FileNotFoundError
      | Some c \<Rightarrow>
          (if xs = [] then Inr (Dir (AList.delete x es))
           else case remove xs c of
                  Inl e \<Rightarrow> Inl e
                | Inr c' \<Rightarrow> Inr (Dir (AList.update x c' es))))"

definition unlink :: "env \<Rightarrow> path \<Rightarrow> node \<Rightarrow> error + node" where
  "unlink env p t =
     (if fault env (Unlink p) then Inl PermissionError
      else if is_dir t p then Inl IsADirectoryError
      else remove p t)"

definition rmtree :: "env \<Rightarrow> path \<Rightarrow> node \<Rightarrow> error + node" where
  "rmtree env p t =
     (if fault env (Rmtree p) then Inl PermissionError
      else if is_file t p then Inl NotADirectoryError
      else remove p t)"

section \<open>The statistics and the log\<close>

text \<open>
  \<^verbatim>\<open>changes_stats\<close> is the dictionary \<^verbatim>\<open>main\<close> builds, with its five fixed keys;
  \<open>items\<close> lists them in the order of the dictionary. The logger is the list of the
  records it was given, oldest first.
\<close>

record stats =
  files_created :: int
  files_changed :: int
  directories_created :: int
  files_deleted :: int
  directories_deleted :: int

definition zero_stats :: stats where
  "zero_stats = \<lparr>files_created = 0, files_changed = 0, directories_created = 0,
     files_deleted = 0, directories_deleted = 0\<rparr>"

definition items :: "stats \<Rightarrow> (string \<times> int) list" where
  "items s =
     [(''Files created'', files_created s),
      (''Files changed/copied'', files_changed s),
      (''Directories created'', directories_created s),
      (''Files deleted'', files_deleted s),
      (''Directories deleted'', directories_deleted s)]"

datatype level = INFO | ERROR

type_synonym log = "(level \<times> string) list"

record state =
  replica :: node
  changes_stats :: stats
  logger :: log

text \<open>\<^verbatim>\<open>str\<close> of a path below a root, and of an integer (decimal).\<close>

definition joinpath :: "string \<Rightarrow> path \<Rightarrow> string" where
  "joinpath root p = root @ concat (map (\<lambda>x. ''/'' @ x) p)"

definition digit :: "nat \<Rightarrow> char" where
  "digit d = ''0123456789'' ! d"

function str_nat :: "nat \<Rightarrow> string" where
  "str_nat n = (if n < 10 then [digit n] else str_nat (n div 10) @ [digit (n mod 10)])"
  by pat_completeness auto
termination
  by (relation "measure (\<lambda>n. n)") auto

declare str_nat.simps [simp del]

definition str_int :: "int \<Rightarrow> string" where
  "str_int i = (if i < 0 then ''-'' @ str_nat (nat (- i)) else str_nat (nat i))"

fun join :: "string \<Rightarrow> string list \<Rightarrow> string" where
  "join sep [] = []"
| "join sep [x] = x"
| "join sep (x # y # ys) = x @ sep @ join sep (y # ys)"

section \<open>\<^verbatim>\<open>write_stats_to_logging_file\<close>\<close>

definition write_stats_to_logging_file :: "state \<Rightarrow> state" where
  "write_stats_to_logging_file st =
     (let s = join ''; '' (map (\<lambda>(key, value). key @ '' = '' @ str_int value)
                (items (changes_stats st)))
      in st\<lparr>logger := logger st @ [(INFO, s @ [CHR 0x0A])],
            changes_stats := zero_stats\<rparr>)"

section \<open>\<^verbatim>\<open>synchronize_folders\<close>\<close>

text \<open>
  The body of the first loop, for one path \<open>p\<close> that \<^verbatim>\<open>rglob\<close> produced in the
  source. Everything from the existence test on is inside the \<^verbatim>\<open>try\<close>: an operation
  that raises leaves the error record and nothing else.
\<close>

definition sync_source_entry :: "env \<Rightarrow> node \<Rightarrow> path \<Rightarrow> state \<Rightarrow> state" where
  "sync_source_entry env src p st =
     (let source_file = joinpath (source_folder_path env) p;
          replica_source_file = joinpath (replica_folder_path env) p;
          failed_copy = st\<lparr>logger := logger st @
            [(ERROR, ''Failed to copy '' @ source_file @ '' to '' @ replica_source_file)]\<rparr>
      in case lookup src p of
           Some (File c m) \<Rightarrow>
             (if \<not> path_exists (replica st) p then
                (case copy2 env (File c m) (last p) p (replica st) of
                   Inl e \<Rightarrow> failed_copy
                 | Inr r \<Rightarrow>
                     st\<lparr>replica := r,
                        logger := logger st @
                          [(INFO, ''Created and copied '' @ source_file @ '' to '' @
                                  replica_source_file)],
                        changes_stats := (changes_stats st)
                          \<lparr>files_created := files_created (changes_stats st) + 1\<rparr>\<rparr>)
              else
                (case stat env (replica st) p of
                   Inl e \<Rightarrow> failed_copy
                 | Inr (sz, mt) \<Rightarrow>
                     (if length c \<noteq> sz \<or> m > mt then
                        (case copy2 env (File c m) (last p) p (replica st) of
                           Inl e \<Rightarrow> failed_copy
                         | Inr r \<Rightarrow>
                             st\<lparr>replica := r,
                                logger := logger st @
                                  [(INFO, ''Copied '' @ source_file @ '' to '' @
                                          replica_source_file)],
                                changes_stats := (changes_stats st)
                                  \<lparr>files_changed := files_changed (changes_stats st) + 1\<rparr>\<rparr>)
                      else st)))
         | Some (Dir es) \<Rightarrow>
             (if \<not> path_exists (replica st) p then
                (case mkdir env p (replica st) of
                   Inl e \<Rightarrow>
                     st\<lparr>logger := logger st @
                       [(ERROR, ''Failed to create new directory: '' @ source_file @ '' in '' @
                                replica_source_file)]\<rparr>
                 | Inr r \<Rightarrow>
                     st\<lparr>replica := r,
                        logger := logger st @
                          [(INFO, ''Created new directory: '' @ source_file @ '' in '' @
                                  replica_source_file)],
                        changes_stats := (changes_stats st)
                          \<lparr>directories_created :=
                             directories_created (changes_stats st) + 1\<rparr>\<rparr>)
              else st)
         | None \<Rightarrow> st)"

text \<open>The body of the second loop, for one path \<open>p\<close> of the replica.\<close>

definition sync_replica_entry :: "env \<Rightarrow> node \<Rightarrow> path \<Rightarrow> state \<Rightarrow> state" where
  "sync_replica_entry env src p st =
     (let replica_file = joinpath (replica_folder_path env) p
      in if is_file (replica st) p \<and> \<not> path_exists src p then
           (case unlink env p (replica st) of
              Inl e \<Rightarrow>
                st\<lparr>logger := logger st @ [(ERROR, ''Failed to delete file: '' @ replica_file)]\<rparr>
            | Inr r \<Rightarrow>
                st\<lparr>replica := r,
                   logger := logger st @ [(INFO, ''Deleted file: '' @ replica_file)],
                   changes_stats := (changes_stats st)
                     \<lparr>files_deleted := files_deleted (changes_stats st) + 1\<rparr>\<rparr>)
         else if is_dir (replica st) p \<and> \<not> path_exists src p then
           (case rmtree env p (replica st) of
              Inl e \<Rightarrow>
                st\<lparr>logger := logger st @
                  [(ERROR, ''Failed to delete directory: '' @ replica_file)]\<rparr>
            | Inr r \<Rightarrow>
                st\<lparr>replica := r,
                   logger := logger st @ [(INFO, ''Deleted directory: '' @ replica_file)],
                   changes_stats := (changes_stats st)
                     \<lparr>directories_deleted := directories_deleted (changes_stats st) + 1\<rparr>\<rparr>)
         else st)"

text \<open>
  The two loops. The source is not written to, so the first loop runs over its listing.
  The second loop runs over the listing of the replica as the first loop left it.
  \<^verbatim>\<open>rglob\<close> is a generator: it scans a directory when it reaches it, so it does not
  produce the entries of a directory the loop has removed before. The loop only removes
  entries, and only the one it is at, so these are the only paths of the listing the
  generator leaves out; on each of them, which is neither a file nor a directory any
  more, the body does nothing (\<open>replica_entry_absent\<close>).
\<close>

definition source_walk :: "env \<Rightarrow> node \<Rightarrow> state \<Rightarrow> state" where
  "source_walk env src st = fold (sync_source_entry env src) (rglob [] src) st"

definition replica_walk :: "env \<Rightarrow> node \<Rightarrow> state \<Rightarrow> state" where
  "replica_walk env src st = fold (sync_replica_entry env src) (rglob [] (replica st)) st"

definition synchronize_folders :: "env \<Rightarrow> node \<Rightarrow> state \<Rightarrow> state" where
  "synchronize_folders env src st = replica_walk env src (source_walk env src st)"

section \<open>\<^verbatim>\<open>main\<close>: the existence check and the loop\<close>










section \<open>Observations used in the statements\<close>

text \<open>
  What a path shows without its subtree: a file with its bytes and time, or a bare
  directory. \<open>errors\<close> counts the error records of a log.
\<close>

fun shallow :: "node \<Rightarrow> node" where
  "shallow (File c m) = File c m"
| "shallow (Dir es) = Dir []"

definition entry :: "node \<Rightarrow> path \<Rightarrow> node option" where
  "entry t p = map_option shallow (lookup t p)"

definition errors :: "log \<Rightarrow> nat" where
  "errors l = length (filter (\<lambda>r. fst r = ERROR) l)"


fun files_not_dirs :: "node \<Rightarrow> node \<Rightarrow> bool" where
  "files_not_dirs (File c m) (File c' m') = True"
| "files_not_dirs (Dir es) (Dir fs) =
     list_all (\<lambda>(k, c). case map_of fs k of None \<Rightarrow> True | Some d \<Rightarrow> files_not_dirs c d) es"
| "files_not_dirs (File c m) (Dir fs) = False"
| "files_not_dirs (Dir es) (File c' m') = True"


definition no_dir_for_file :: "node \<Rightarrow> node \<Rightarrow> bool" where
  "no_dir_for_file src t \<longleftrightarrow>
     (\<forall>q c m. entry src q = Some (File c m) \<longrightarrow> entry t q \<noteq> Some (Dir []))"

definition synced_at :: "node \<Rightarrow> node \<Rightarrow> path \<Rightarrow> bool" where
  "synced_at src t q \<longleftrightarrow>
     (case entry src q of
        None \<Rightarrow> True
      | Some (File c m) \<Rightarrow>
          (\<exists>c' m'. entry t q = Some (File c' m') \<and> length c = length c' \<and> m \<le> m')
      | Some (Dir es) \<Rightarrow> entry t q \<noteq> None)"

definition copied :: "node \<Rightarrow> path \<Rightarrow> node \<Rightarrow> node \<Rightarrow> bool" where
  "copied src p t t' \<longleftrightarrow>
     (\<exists>c m w. entry src p = Some (File c m) \<and>
        (w = p \<or> w = p @ [last p] \<and> entry t p = Some (Dir [])) \<and>
        entry t w \<noteq> Some (Dir []) \<and>
        (\<forall>q. entry t' q = (if q = w then Some (File c m) else entry t q)))"

definition made_dir :: "node \<Rightarrow> path \<Rightarrow> node \<Rightarrow> node \<Rightarrow> bool" where
  "made_dir src p t t' \<longleftrightarrow>
     entry src p = Some (Dir []) \<and> entry t p = None \<and>
     (\<forall>q. entry t' q =
        (if entry t q = None \<and> prefix q p then Some (Dir []) else entry t q))"

definition removed :: "node \<Rightarrow> path \<Rightarrow> node \<Rightarrow> node \<Rightarrow> bool" where
  "removed src p t t' \<longleftrightarrow>
     entry src p = None \<and> (\<forall>q. entry t' q = (if prefix p q then None else entry t q))"

subsection \<open>Example inputs\<close>

definition example_env :: env where
  "example_env = \<lparr>source_folder_path = ''/s'', replica_folder_path = ''/r'',
     fault = (\<lambda>op. False), dir_stat = (\<lambda>p. (4096, 50))\<rparr>"

definition fresh :: "node \<Rightarrow> state" where
  "fresh r = \<lparr>replica = r, changes_stats = zero_stats, logger = []\<rparr>"





definition scenario_source :: node where
  "scenario_source = Dir [(''a.txt'', File ''hello'' 10), (''sub'', Dir [(''b.txt'', File ''x'' 11)])]"

definition source_file_a :: node where
  "source_file_a = Dir [(''a'', File ''hello'' 10)]"

definition replica_dir_a :: node where
  "replica_dir_a = Dir [(''a'', Dir [])]"




section \<open>Paths and entries\<close>

lemma lookup_File: "lookup (File c m) p = (if p = [] then Some (File c m) else None)"
  by (cases p) auto

lemma lookup_append:
  "lookup t (p @ q) = (case lookup t p of None \<Rightarrow> None | Some n \<Rightarrow> lookup n q)"
proof (induction p arbitrary: t)
  case Nil
  then show ?case by simp
next
  case (Cons x xs)
  then show ?case by (cases t) (auto split: option.splits)
qed

lemma lookup_prefix: "lookup t q \<noteq> None \<Longrightarrow> prefix p q \<Longrightarrow> lookup t p \<noteq> None"
  by (auto simp: prefix_def lookup_append split: option.splits)

lemma entry_Nil: "entry t [] = Some (shallow t)"
  by (simp add: entry_def)

lemma entry_Cons_Dir:
  "entry (Dir es) (x # xs) = (case map_of es x of None \<Rightarrow> None | Some c \<Rightarrow> entry c xs)"
  by (simp add: entry_def split: option.splits)

lemma entry_Cons_File: "entry (File c m) (x # xs) = None"
  by (simp add: entry_def)

lemma write_file_entry:
  "write_file p (File c m) t = Inr t' \<Longrightarrow>
   entry t' q = (if q = p then Some (File c m) else entry t q)"
proof (induction p arbitrary: t t' q)
  case Nil
  then show ?case
    by (cases t; cases q) (auto simp: entry_def)
next
  case (Cons x xs)
  then obtain es where t: "t = Dir es" by (cases t) auto
  show ?case
  proof (cases "map_of es x")
    case None
    with Cons.prems t have xs: "xs = []" and t': "t' = Dir (es @ [(x, File c m)])"
      by (auto split: if_splits)
    show ?thesis
    proof (cases q)
      case Nil
      then show ?thesis by (simp add: t t' entry_def)
    next
      case (Cons y ys)
      then show ?thesis using None
        by (cases ys) (auto simp: t t' xs entry_def map_add_def split: option.splits)
    qed
  next
    case (Some c0)
    with Cons.prems t obtain c' where c': "write_file xs (File c m) c0 = Inr c'"
      and t': "t' = Dir (AList.update x c' es)"
      by (auto split: sum.splits)
    show ?thesis
    proof (cases q)
      case Nil
      then show ?thesis by (simp add: t t' entry_def)
    next
      case (Cons y ys)
      then show ?thesis using Some Cons.IH [OF c', of ys]
        by (auto simp: t t' entry_Cons_Dir update_conv')
    qed
  qed
qed

lemma lookup_new_dirs:
  "entry (new_dirs xs) q = (if prefix q xs then Some (Dir []) else None)"
proof (induction xs arbitrary: q)
  case Nil
  then show ?case by (cases q) (auto simp: entry_def)
next
  case (Cons x xs)
  then show ?case by (cases q) (auto simp: entry_Nil entry_Cons_Dir)
qed

lemma mkdir_parents_entry:
  "mkdir_parents p t = Inr t' \<Longrightarrow>
   entry t' q = (if entry t q = None \<and> prefix q p then Some (Dir []) else entry t q)"
proof (induction p arbitrary: t t' q)
  case Nil
  then show ?case by simp
next
  case (Cons x xs)
  then obtain es where t: "t = Dir es" by (cases t) auto
  show ?case
  proof (cases "map_of es x")
    case None
    with Cons.prems t have t': "t' = Dir (es @ [(x, new_dirs xs)])"
      by auto
    show ?thesis
    proof (cases q)
      case Nil
      then show ?thesis by (simp add: t t' entry_def)
    next
      case (Cons y ys)
      then show ?thesis using None
        by (auto simp: t t' entry_Cons_Dir lookup_new_dirs map_add_def split: option.splits)
    qed
  next
    case (Some c0)
    with Cons.prems t obtain c' where c': "mkdir_parents xs c0 = Inr c'"
      and t': "t' = Dir (AList.update x c' es)"
      by (auto split: sum.splits if_splits)
    show ?thesis
    proof (cases q)
      case Nil
      then show ?thesis by (simp add: t t' entry_def)
    next
      case (Cons y ys)
      then show ?thesis using Some Cons.IH [OF c', of ys]
        by (auto simp: t t' entry_Cons_Dir update_conv')
    qed
  qed
qed

lemma remove_entry:
  "remove p t = Inr t' \<Longrightarrow> entry t' q = (if prefix p q then None else entry t q)"
proof (induction p arbitrary: t t' q)
  case Nil
  then show ?case by simp
next
  case (Cons x xs)
  then obtain es where t: "t = Dir es" by (cases t) auto
  from Cons.prems t obtain c0 where c0: "map_of es x = Some c0"
    by (auto split: option.splits)
  show ?case
  proof (cases "xs = []")
    case True
    with Cons.prems t c0 have t': "t' = Dir (AList.delete x es)" by auto
    show ?thesis
      by (cases q) (auto simp: t t' True entry_Nil entry_Cons_Dir delete_conv')
  next
    case False
    with Cons.prems t c0 obtain c' where c': "remove xs c0 = Inr c'"
      and t': "t' = Dir (AList.update x c' es)"
      by (auto split: sum.splits)
    show ?thesis
    proof (cases q)
      case Nil
      then show ?thesis by (simp add: t t' entry_def)
    next
      case (Cons y ys)
      then show ?thesis using c0 Cons.IH [OF c', of ys]
        by (auto simp: t t' entry_Cons_Dir update_conv')
    qed
  qed
qed

lemma remove_ok: "lookup t p \<noteq> None \<Longrightarrow> p \<noteq> [] \<Longrightarrow> \<exists>t'. remove p t = Inr t'"
proof (induction p arbitrary: t)
  case Nil
  then show ?case by simp
next
  case (Cons x xs)
  then obtain es where t: "t = Dir es" by (cases t) auto
  from Cons.prems t obtain c where c: "map_of es x = Some c" and l: "lookup c xs \<noteq> None"
    by (auto split: option.splits)
  show ?case
  proof (cases "xs = []")
    case True
    then show ?thesis by (simp add: t c)
  next
    case False
    from Cons.IH [OF l False] obtain c' where "remove xs c = Inr c'" by blast
    then show ?thesis by (simp add: t c False)
  qed
qed

lemma rglob_covers:
  "lookup t q \<noteq> None \<Longrightarrow> q \<noteq> [] \<Longrightarrow> p @ q \<in> set (rglob p t)"
proof (induction q arbitrary: t p)
  case Nil
  then show ?case by simp
next
  case (Cons x xs)
  then obtain es where t: "t = Dir es" by (cases t) auto
  from Cons.prems t obtain c where c: "map_of es x = Some c" and l: "lookup c xs \<noteq> None"
    by (auto split: option.splits)
  from c have mem: "(x, c) \<in> set es" by (rule map_of_SomeD)
  show ?case
  proof (cases "xs = []")
    case True
    with mem show ?thesis by (force simp: t)
  next
    case False
    from Cons.IH [OF l False, of "p @ [x]"] mem show ?thesis
      by (force simp: t)
  qed
qed

lemma path_exists_entry: "path_exists t p \<longleftrightarrow> entry t p \<noteq> None"
  by (simp add: path_exists_def entry_def split: option.splits)

lemma is_dir_entry: "is_dir t p \<longleftrightarrow> entry t p = Some (Dir [])"
  by (auto simp: is_dir_def entry_def split: option.splits node.splits)

lemma is_file_entry: "is_file t p \<longleftrightarrow> (\<exists>c m. entry t p = Some (File c m))"
  by (auto simp: is_file_def entry_def split: option.splits node.splits)

lemma lookup_File_entry: "lookup t p = Some (File c m) \<longleftrightarrow> entry t p = Some (File c m)"
  by (auto simp: entry_def split: option.splits node.splits) (metis node.exhaust shallow.simps node.distinct(1))

lemma lookup_Dir_entry: "lookup t p = Some (Dir es) \<Longrightarrow> entry t p = Some (Dir [])"
  by (simp add: entry_def)

lemma entry_cases:
  "entry t p = None \<or> (\<exists>c m. entry t p = Some (File c m)) \<or> entry t p = Some (Dir [])"
  by (cases "lookup t p"; cases "the (lookup t p)") (auto simp: entry_def)

lemma entry_prefix: "entry t q \<noteq> None \<Longrightarrow> prefix p q \<Longrightarrow> entry t p \<noteq> None"
  using lookup_prefix [of t q p] by (simp add: entry_def)

lemma entry_strict_prefix:
  assumes "entry t q \<noteq> None" and "strict_prefix p q"
  shows "entry t p = Some (Dir [])"
proof -
  from assms(2) obtain r where q: "q = p @ r" and r: "r \<noteq> []"
    by (auto simp: strict_prefix_def prefix_def)
  from assms(1) obtain n where n: "lookup t p = Some n" and l: "lookup n r \<noteq> None"
    by (auto simp: entry_def q lookup_append split: option.splits)
  from l r obtain es where "n = Dir es"
    by (cases n; cases r) auto
  with n show ?thesis by (simp add: entry_def)
qed

lemma write_file_not_dir:
  "write_file p f t = Inr t' \<Longrightarrow> entry t p \<noteq> Some (Dir [])"
proof (induction p arbitrary: t t')
  case Nil
  then show ?case by (cases t) (auto simp: entry_def)
next
  case (Cons x xs)
  then obtain es where t: "t = Dir es" by (cases t) auto
  show ?case using Cons.prems Cons.IH
    by (auto simp: t entry_Cons_Dir split: option.splits sum.splits if_splits)
qed


lemma rglob_complete: "path_exists t q \<Longrightarrow> q \<noteq> [] \<Longrightarrow> q \<in> set (rglob [] t)"
  using rglob_covers [of t q "[]"] by (simp add: path_exists_def split: option.splits)

section \<open>One iteration of each loop\<close>

lemma errors_append [simp]: "errors (l @ l') = errors l + errors l'"
  by (simp add: errors_def)

lemma errors_single [simp]: "errors [(ERROR, s)] = 1" "errors [(INFO, s)] = 0"
  by (simp_all add: errors_def)

lemma copy2_effect:
  assumes "copy2 env (File c m) name dst t = Inr t'"
  shows "\<exists>w. (w = dst \<or> w = dst @ [name] \<and> entry t dst = Some (Dir [])) \<and>
             entry t w \<noteq> Some (Dir []) \<and>
             (\<forall>q. entry t' q = (if q = w then Some (File c m) else entry t q))"
proof (cases "is_dir t dst")
  case True
  then obtain es where "lookup t dst = Some (Dir es)"
    by (auto simp: is_dir_def split: option.splits node.splits)
  with assms have w: "write_file (dst @ [name]) (File c m) t = Inr t'"
    by (auto simp: copy2_def split: if_splits)
  from True write_file_not_dir [OF w] write_file_entry [OF w] show ?thesis
    by (auto simp: is_dir_entry)
next
  case False
  with assms have w: "write_file dst (File c m) t = Inr t'"
    by (auto simp: copy2_def is_dir_def split: if_splits option.splits node.splits)
  from write_file_not_dir [OF w] write_file_entry [OF w] show ?thesis
    by auto
qed

lemma mkdir_effect:
  assumes "mkdir env p t = Inr t'"
  shows "entry t' q = (if entry t q = None \<and> prefix q p then Some (Dir []) else entry t q)"
  using assms mkdir_parents_entry [of p t t' q] by (auto simp: mkdir_def split: if_splits)

lemma unlink_effect:
  assumes "unlink env p t = Inr t'"
  shows "entry t' q = (if prefix p q then None else entry t q)"
  using assms remove_entry [of p t t' q] by (auto simp: unlink_def split: if_splits)

lemma rmtree_effect:
  assumes "rmtree env p t = Inr t'"
  shows "entry t' q = (if prefix p q then None else entry t q)"
  using assms remove_entry [of p t t' q] by (auto simp: rmtree_def split: if_splits)

lemma source_entry_effect:
  "replica (sync_source_entry env src p st) = replica st \<or>
   copied src p (replica st) (replica (sync_source_entry env src p st)) \<or>
   made_dir src p (replica st) (replica (sync_source_entry env src p st))"
proof (cases "lookup src p")
  case None
  then show ?thesis by (simp add: sync_source_entry_def)
next
  case (Some n)
  show ?thesis
  proof (cases n)
    case (File c m)
    with Some have e: "entry src p = Some (File c m)" by (simp add: entry_def)
    show ?thesis
    proof (cases "copy2 env (File c m) (last p) p (replica st)")
      case (Inl e)
      then show ?thesis using Some File
        by (auto simp: sync_source_entry_def Let_def split: sum.splits prod.splits)
    next
      case (Inr r)
      from copy2_effect [OF Inr] e have "copied src p (replica st) r"
        unfolding copied_def by blast
      then show ?thesis using Some File Inr
        by (auto simp: sync_source_entry_def Let_def split: sum.splits prod.splits)
    qed
  next
    case (Dir es)
    with Some have e: "entry src p = Some (Dir [])" by (simp add: entry_def)
    show ?thesis
    proof (cases "mkdir env p (replica st)")
      case (Inl e)
      then show ?thesis using Some Dir
        by (auto simp: sync_source_entry_def Let_def)
    next
      case (Inr r)
      have "made_dir src p (replica st) r" if "\<not> path_exists (replica st) p"
        using that e mkdir_effect [OF Inr] by (auto simp: made_dir_def path_exists_entry)
      then show ?thesis using Some Dir Inr
        by (auto simp: sync_source_entry_def Let_def)
    qed
  qed
qed

lemma source_entry_errors_mono:
  "errors (logger st) \<le> errors (logger (sync_source_entry env src p st))"
  by (auto simp: sync_source_entry_def Let_def split: option.splits node.splits sum.splits prod.splits)

lemma replica_entry_errors_mono:
  "errors (logger st) \<le> errors (logger (sync_replica_entry env src p st))"
  by (auto simp: sync_replica_entry_def Let_def split: sum.splits)

lemma synced_at_cong: "entry t' q = entry t q \<Longrightarrow> synced_at src t' q = synced_at src t q"
  unfolding synced_at_def by (erule ssubst) (rule refl)


lemma copied_at:
  assumes "copied src p t t'" and "no_dir_for_file src t"
  obtains c m where "entry src p = Some (File c m)"
    and "\<And>q. entry t' q = (if q = p then Some (File c m) else entry t q)"
proof -
  from assms(1) obtain c m w where e: "entry src p = Some (File c m)"
    and w: "w = p \<or> w = p @ [last p] \<and> entry t p = Some (Dir [])"
    and eq: "\<And>q. entry t' q = (if q = w then Some (File c m) else entry t q)"
    unfolding copied_def by blast
  from assms(2) e have "entry t p \<noteq> Some (Dir [])" unfolding no_dir_for_file_def by blast
  with w have "w = p" by blast
  with e eq that show ?thesis by blast
qed

lemma source_entry_synced:
  assumes ag: "no_dir_for_file src (replica st)"
    and ne: "errors (logger (sync_source_entry env src p st)) = errors (logger st)"
  shows "synced_at src (replica (sync_source_entry env src p st)) p"
proof (cases "lookup src p")
  case None
  then show ?thesis by (simp add: synced_at_def entry_def)
next
  case (Some n)
  show ?thesis
  proof (cases n)
    case (File c m)
    with Some have e: "entry src p = Some (File c m)" by (simp add: entry_def)
    have nd: "entry (replica st) p \<noteq> Some (Dir [])"
      using ag e unfolding no_dir_for_file_def by blast
    have cp: "synced_at src r p" if "copy2 env (File c m) (last p) p (replica st) = Inr r" for r
      using copy2_effect [OF that] nd e by (auto simp: synced_at_def)
    show ?thesis
    proof (cases "path_exists (replica st) p")
      case False
      then show ?thesis using Some File ne cp
        by (auto simp: sync_source_entry_def Let_def split: sum.splits)
    next
      case True
      with nd obtain c' m' where r: "lookup (replica st) p = Some (File c' m')"
        using entry_cases [of "replica st" p]
        by (auto simp: path_exists_entry lookup_File_entry)
      then have s: "stat env (replica st) p = Inr (length c', m')"
        by (simp add: stat_def)
      have "synced_at src (replica st) p" if "length c = length c'" "m \<le> m'"
        using that e r by (auto simp: synced_at_def lookup_File_entry)
      then show ?thesis using Some File ne cp True s
        by (auto simp: sync_source_entry_def Let_def split: sum.splits)
    qed
  next
    case (Dir es)
    with Some have e: "entry src p = Some (Dir [])" by (simp add: entry_def)
    show ?thesis
    proof (cases "path_exists (replica st) p")
      case True
      then show ?thesis using Some Dir True e
        by (auto simp: sync_source_entry_def Let_def synced_at_def path_exists_entry)
    next
      case False
      have "synced_at src r p" if "mkdir env p (replica st) = Inr r" for r
        using mkdir_effect [OF that, of p] False e
        by (auto simp: synced_at_def path_exists_entry)
      then show ?thesis using Some Dir False ne
        by (auto simp: sync_source_entry_def Let_def split: sum.splits)
    qed
  qed
qed

lemma made_dir_kinds:
  assumes "made_dir src p t t'" and "entry src q = Some a" and "prefix q p"
  shows "a = Dir []"
proof (cases "q = p")
  case True
  with assms show ?thesis by (simp add: made_dir_def)
next
  case False
  with assms(3) have "strict_prefix q p" by (simp add: strict_prefix_def)
  moreover from assms(1) have "entry src p \<noteq> None" by (simp add: made_dir_def)
  ultimately have "entry src q = Some (Dir [])" by (rule entry_strict_prefix [rotated])
  with assms(2) show ?thesis by simp
qed


lemma source_entry_no_dir_for_file:
  assumes ag: "no_dir_for_file src (replica st)"
  shows "no_dir_for_file src (replica (sync_source_entry env src p st))"
proof -
  let ?t = "replica st" and ?t' = "replica (sync_source_entry env src p st)"
  from source_entry_effect [of env src p st]
  consider "?t' = ?t" | "copied src p ?t ?t'" | "made_dir src p ?t ?t'" by blast
  then show ?thesis
  proof cases
    case 1
    with ag show ?thesis by simp
  next
    case 2
    from copied_at [OF 2 ag] obtain c m
      where e: "entry src p = Some (File c m)"
        and eq: "\<And>q. entry ?t' q = (if q = p then Some (File c m) else entry ?t q)"
      by blast
    with ag show ?thesis unfolding no_dir_for_file_def by auto
  next
    case 3
    then have eq: "\<And>q. entry ?t' q =
          (if entry ?t q = None \<and> prefix q p then Some (Dir []) else entry ?t q)"
      unfolding made_dir_def by blast
    from ag eq made_dir_kinds [OF 3] show ?thesis
      unfolding no_dir_for_file_def by (auto split: if_splits)
  qed
qed

lemma source_entry_keeps_synced:
  assumes ag: "no_dir_for_file src (replica st)" and sy: "synced_at src (replica st) q"
  shows "synced_at src (replica (sync_source_entry env src p st)) q"
proof (cases "entry src q")
  case None
  then show ?thesis by (simp add: synced_at_def)
next
  case (Some a)
  let ?t = "replica st" and ?t' = "replica (sync_source_entry env src p st)"
  from Some sy have ex: "entry ?t q \<noteq> None"
    by (auto simp: synced_at_def split: node.splits)
  from source_entry_effect [of env src p st]
  consider "?t' = ?t" | "copied src p ?t ?t'" | "made_dir src p ?t ?t'" by blast
  then show ?thesis
  proof cases
    case 1
    with sy show ?thesis by simp
  next
    case 2
    from copied_at [OF 2 ag] obtain c m
      where e: "entry src p = Some (File c m)"
        and eq: "\<And>q. entry ?t' q = (if q = p then Some (File c m) else entry ?t q)"
      by blast
    show ?thesis
    proof (cases "q = p")
      case True
      with e eq show ?thesis by (simp add: synced_at_def)
    next
      case False
      with eq have "entry ?t' q = entry ?t q" by simp
      from synced_at_cong [OF this] sy show ?thesis by simp
    qed
  next
    case 3
    with ex have "entry ?t' q = entry ?t q" unfolding made_dir_def by auto
    from synced_at_cong [OF this] sy show ?thesis by simp
  qed
qed



section \<open>The two walks\<close>

lemma fold_invariant:
  assumes "P st" and "\<And>p s. P s \<Longrightarrow> P (f p s)"
  shows "P (fold f ps st)"
  using assms(1) by (induction ps arbitrary: st) (auto intro: assms(2))

lemma source_fold_errors_mono:
  "errors (logger st) \<le> errors (logger (fold (sync_source_entry env src) ps st))"
proof (induction ps arbitrary: st)
  case Nil
  then show ?case by simp
next
  case (Cons p ps)
  from source_entry_errors_mono [of st env src p] Cons [of "sync_source_entry env src p st"]
  show ?case by simp
qed

lemma replica_fold_errors_mono:
  "errors (logger st) \<le> errors (logger (fold (sync_replica_entry env src) ps st))"
proof (induction ps arbitrary: st)
  case Nil
  then show ?case by simp
next
  case (Cons p ps)
  from replica_entry_errors_mono [of st env src p] Cons [of "sync_replica_entry env src p st"]
  show ?case by simp
qed


lemma source_fold_keeps_synced:
  assumes "no_dir_for_file src (replica st)" and "synced_at src (replica st) q"
  shows "synced_at src (replica (fold (sync_source_entry env src) ps st)) q"
proof -
  have "no_dir_for_file src (replica (fold (sync_source_entry env src) ps st)) \<and>
        synced_at src (replica (fold (sync_source_entry env src) ps st)) q"
    by (rule fold_invariant
          [where P = "\<lambda>s. no_dir_for_file src (replica s) \<and> synced_at src (replica s) q"])
       (auto simp: assms intro: source_entry_no_dir_for_file source_entry_keeps_synced)
  then show ?thesis ..
qed


lemma source_fold_synced:
  assumes "no_dir_for_file src (replica st)"
    and "errors (logger (fold (sync_source_entry env src) ps st)) = errors (logger st)"
    and "q \<in> set ps"
  shows "synced_at src (replica (fold (sync_source_entry env src) ps st)) q"
  using assms
proof (induction ps arbitrary: st)
  case Nil
  then show ?case by simp
next
  case (Cons p ps)
  let ?s = "sync_source_entry env src p st"
  from source_entry_errors_mono [of st env src p]
    source_fold_errors_mono [of ?s env src ps] Cons.prems(2)
  have e1: "errors (logger ?s) = errors (logger st)"
    and e2: "errors (logger (fold (sync_source_entry env src) ps ?s)) = errors (logger ?s)"
    by simp_all
  have ag: "no_dir_for_file src (replica ?s)"
    using Cons.prems(1) by (rule source_entry_no_dir_for_file)
  show ?case
  proof (cases "q \<in> set ps")
    case True
    from Cons.IH [OF ag e2 True] show ?thesis by simp
  next
    case False
    with Cons.prems(3) have "q = p" by simp
    with source_entry_synced [OF Cons.prems(1) e1] have "synced_at src (replica ?s) q"
      by simp
    from source_fold_keeps_synced [OF ag this] show ?thesis by simp
  qed
qed

lemma replica_entry_effect:
  "replica (sync_replica_entry env src p st) = replica st \<or>
   removed src p (replica st) (replica (sync_replica_entry env src p st))"
proof -
  have "removed src p (replica st) r"
    if "\<not> path_exists src p" "unlink env p (replica st) = Inr r \<or> rmtree env p (replica st) = Inr r"
    for r
    using that unlink_effect [of env p "replica st" r] rmtree_effect [of env p "replica st" r]
    by (auto simp: removed_def path_exists_entry)
  then show ?thesis
    by (auto simp: sync_replica_entry_def Let_def split: sum.splits)
qed

lemma unlink_ok:
  "is_file t p \<Longrightarrow> p \<noteq> [] \<Longrightarrow> \<not> fault env (Unlink p) \<Longrightarrow> \<exists>r. unlink env p t = Inr r"
  using remove_ok [of t p]
  by (auto simp: unlink_def is_file_def is_dir_def split: option.splits node.splits)

lemma rmtree_ok:
  "is_dir t p \<Longrightarrow> p \<noteq> [] \<Longrightarrow> \<not> fault env (Rmtree p) \<Longrightarrow> \<exists>r. rmtree env p t = Inr r"
  using remove_ok [of t p]
  by (auto simp: rmtree_def is_file_def is_dir_def split: option.splits node.splits)

lemma replica_entry_removes:
  assumes "errors (logger (sync_replica_entry env src p st)) = errors (logger st)"
    and "\<not> path_exists src p"
  shows "\<not> path_exists (replica (sync_replica_entry env src p st)) p"
proof (cases "is_file (replica st) p \<or> is_dir (replica st) p")
  case False
  then have "\<not> path_exists (replica st) p"
    using entry_cases [of "replica st" p]
    by (auto simp: is_file_entry is_dir_entry path_exists_entry)
  with False show ?thesis by (simp add: sync_replica_entry_def)
next
  case True
  have "\<not> path_exists r p"
    if "unlink env p (replica st) = Inr r \<or> rmtree env p (replica st) = Inr r" for r
    using that unlink_effect [of env p "replica st" r p] rmtree_effect [of env p "replica st" r p]
    by (auto simp: path_exists_entry)
  then show ?thesis using assms True
    by (cases "is_file (replica st) p")
       (auto simp: sync_replica_entry_def Let_def split: sum.splits)
qed

lemma replica_entry_absent:
  "\<not> path_exists (replica st) p \<Longrightarrow> sync_replica_entry env src p st = st"
  by (auto simp: sync_replica_entry_def is_file_def is_dir_def path_exists_def
      split: option.splits)

lemma replica_entry_stays_absent:
  assumes "\<not> path_exists (replica st) q"
  shows "\<not> path_exists (replica (sync_replica_entry env src p st)) q"
  using replica_entry_effect [of env src p st] assms
  by (auto simp: removed_def path_exists_entry)

lemma replica_entry_keeps:
  assumes "path_exists src q"
  shows "entry (replica (sync_replica_entry env src p st)) q = entry (replica st) q"
proof -
  have "\<not> prefix p q" if "entry src p = None"
    using that assms entry_prefix [of src q p] by (auto simp: path_exists_entry)
  with replica_entry_effect [of env src p st] show ?thesis
    by (auto simp: removed_def)
qed

lemma replica_fold_keeps:
  assumes "path_exists src q"
  shows "entry (replica (fold (sync_replica_entry env src) ps st)) q = entry (replica st) q"
  by (rule fold_invariant [where P = "\<lambda>s. entry (replica s) q = entry (replica st) q"])
    (simp_all add: replica_entry_keeps [OF assms])

lemma replica_fold_stays_absent:
  assumes "\<not> path_exists (replica st) q"
  shows "\<not> path_exists (replica (fold (sync_replica_entry env src) ps st)) q"
  by (rule fold_invariant [where P = "\<lambda>s. \<not> path_exists (replica s) q"])
    (simp_all add: assms replica_entry_stays_absent)

lemma replica_fold_removes:
  assumes "errors (logger (fold (sync_replica_entry env src) ps st)) = errors (logger st)"
    and "\<not> path_exists src q" and "q \<in> set ps"
  shows "\<not> path_exists (replica (fold (sync_replica_entry env src) ps st)) q"
  using assms
proof (induction ps arbitrary: st)
  case Nil
  then show ?case by simp
next
  case (Cons p ps)
  let ?s = "sync_replica_entry env src p st"
  from replica_entry_errors_mono [of st env src p]
    replica_fold_errors_mono [of ?s env src ps] Cons.prems(1)
  have e1: "errors (logger ?s) = errors (logger st)"
    and e2: "errors (logger (fold (sync_replica_entry env src) ps ?s)) = errors (logger ?s)"
    by simp_all
  show ?case
  proof (cases "q \<in> set ps")
    case True
    from Cons.IH [OF e2 Cons.prems(2) True] show ?thesis by simp
  next
    case False
    with Cons.prems(3) have "q = p" by simp
    with replica_entry_removes [OF e1] Cons.prems(2) have "\<not> path_exists (replica ?s) q"
      by simp
    from replica_fold_stays_absent [OF this] show ?thesis by simp
  qed
qed

section \<open>A whole pass\<close>



lemma files_not_dirs_lookup:
  "files_not_dirs s r \<Longrightarrow> lookup s q = Some a \<Longrightarrow> lookup r q = Some b \<Longrightarrow> files_not_dirs a b"
proof (induction q arbitrary: s r)
  case Nil
  then show ?case by simp
next
  case (Cons x xs)
  from Cons.prems(2) obtain es where s: "s = Dir es" by (cases s) auto
  from Cons.prems(3) obtain fs where r: "r = Dir fs" by (cases r) auto
  from Cons.prems(2) s obtain c where c: "map_of es x = Some c" "lookup c xs = Some a"
    by (auto split: option.splits)
  from Cons.prems(3) r obtain d where d: "map_of fs x = Some d" "lookup d xs = Some b"
    by (auto split: option.splits)
  from c(1) have "(x, c) \<in> set es" by (rule map_of_SomeD)
  with Cons.prems(1) d(1) have "files_not_dirs c d"
    by (auto simp: s r list_all_iff)
  from Cons.IH [OF this c(2) d(2)] show ?case .
qed

lemma files_not_dirs_paths: "files_not_dirs src t \<Longrightarrow> no_dir_for_file src t"
  unfolding no_dir_for_file_def
proof (intro allI impI notI)
  fix q c m
  assume sk: "files_not_dirs src t" and a: "entry src q = Some (File c m)"
    and b: "entry t q = Some (Dir [])"
  from a have a': "lookup src q = Some (File c m)" by (simp add: lookup_File_entry)
  from b obtain b' where b': "lookup t q = Some b'" "shallow b' = Dir []"
    by (auto simp: entry_def)
  from files_not_dirs_lookup [OF sk a' b'(1)] b'(2) show False
    by (cases b') simp_all
qed

lemma source_walk_errors:
  assumes "errors (logger (synchronize_folders env src st)) = errors (logger st)"
  shows "errors (logger (source_walk env src st)) = errors (logger st)"
    and "errors (logger (replica_walk env src (source_walk env src st))) =
         errors (logger (source_walk env src st))"
  using assms source_fold_errors_mono [of st env src "rglob [] src"]
    replica_fold_errors_mono [of "source_walk env src st" env src
      "rglob [] (replica (source_walk env src st))"]
  by (simp_all add: synchronize_folders_def source_walk_def replica_walk_def)

lemma replica_walk_keeps:
  "path_exists src q \<Longrightarrow> entry (replica (replica_walk env src st)) q = entry (replica st) q"
  unfolding replica_walk_def by (rule replica_fold_keeps)

lemma replica_walk_removes:
  assumes "errors (logger (replica_walk env src st)) = errors (logger st)"
    and "path_exists (replica st) q" and "\<not> path_exists src q"
  shows "\<not> path_exists (replica (replica_walk env src st)) q"
proof -
  from assms(2,3) have "q \<noteq> []" by (auto simp: path_exists_def)
  with assms(2) have "q \<in> set (rglob [] (replica st))" by (simp add: rglob_complete)
  with assms(1,3) show ?thesis
    unfolding replica_walk_def by (intro replica_fold_removes)
qed

lemma replica_walk_stays_absent:
  "\<not> path_exists (replica st) q \<Longrightarrow> \<not> path_exists (replica (replica_walk env src st)) q"
  unfolding replica_walk_def by (rule replica_fold_stays_absent)

lemma pass_synced:
  assumes ag: "no_dir_for_file src (replica st)"
    and ne: "errors (logger (synchronize_folders env src st)) = errors (logger st)"
    and q: "q \<in> set (rglob [] src)"
  shows "synced_at src (replica (synchronize_folders env src st)) q"
proof (cases "path_exists src q")
  case False
  then show ?thesis by (simp add: synced_at_def path_exists_entry)
next
  case True
  from source_walk_errors(1) [OF ne] have "synced_at src (replica (source_walk env src st)) q"
    unfolding source_walk_def using ag q by (intro source_fold_synced) simp_all
  with synced_at_cong [OF replica_walk_keeps [OF True, of env "source_walk env src st"]]
  show ?thesis by (simp add: synchronize_folders_def)
qed

lemma pass_no_orphans:
  assumes ne: "errors (logger (synchronize_folders env src st)) = errors (logger st)"
    and q: "path_exists (replica (synchronize_folders env src st)) q"
  shows "path_exists src q"
proof (rule ccontr)
  assume n: "\<not> path_exists src q"
  let ?m = "source_walk env src st"
  from q replica_walk_stays_absent [of ?m q env src] have "path_exists (replica ?m) q"
    by (auto simp: synchronize_folders_def)
  from replica_walk_removes [OF source_walk_errors(2) [OF ne] this n] q show False
    by (simp add: synchronize_folders_def)
qed

lemma source_entry_in_sync:
  assumes "synced_at src (replica st) p"
  shows "sync_source_entry env src p st = st"
proof (cases "lookup src p")
  case None
  then show ?thesis by (simp add: sync_source_entry_def)
next
  case (Some n)
  show ?thesis
  proof (cases n)
    case (File c m)
    with Some assms obtain c' m' where r: "lookup (replica st) p = Some (File c' m')"
      and le: "length c = length c'" "m \<le> m'"
      by (auto simp: synced_at_def entry_def lookup_File_entry)
    then show ?thesis using Some File
      by (simp add: sync_source_entry_def Let_def path_exists_def stat_def)
  next
    case (Dir es)
    with Some assms have "path_exists (replica st) p"
      by (auto simp: synced_at_def entry_def path_exists_def split: option.splits)
    then show ?thesis using Some Dir
      by (simp add: sync_source_entry_def Let_def)
  qed
qed

lemma replica_entry_in_sync:
  assumes "path_exists (replica st) p \<Longrightarrow> path_exists src p"
  shows "sync_replica_entry env src p st = st"
  using assms
  by (auto simp: sync_replica_entry_def Let_def is_file_def is_dir_def path_exists_def
      split: option.splits)

lemma fold_id: "(\<And>p. p \<in> set ps \<Longrightarrow> f p st = st) \<Longrightarrow> fold f ps st = st"
  by (induction ps) simp_all

lemma pass_in_sync:
  assumes "\<And>p. p \<in> set (rglob [] src) \<Longrightarrow> synced_at src (replica st) p"
    and "\<And>p. path_exists (replica st) p \<Longrightarrow> path_exists src p"
  shows "synchronize_folders env src st = st"
proof -
  have "source_walk env src st = st"
    unfolding source_walk_def by (rule fold_id) (simp add: assms(1) source_entry_in_sync)
  moreover have "replica_walk env src st = st"
    unfolding replica_walk_def by (rule fold_id) (simp add: assms(2) replica_entry_in_sync)
  ultimately show ?thesis by (simp add: synchronize_folders_def)
qed

lemma second_pass_idle:
  assumes "files_not_dirs src (replica st)"
    and "errors (logger (synchronize_folders env src st)) = errors (logger st)"
    and "replica st' = replica (synchronize_folders env src st)"
  shows "synchronize_folders env' src st' = st'"
proof (rule pass_in_sync)
  fix p assume "p \<in> set (rglob [] src)"
  from pass_synced [OF files_not_dirs_paths [OF assms(1)] assms(2) this]
  show "synced_at src (replica st') p" by (simp add: assms(3))
next
  fix p assume "path_exists (replica st') p"
  with pass_no_orphans [OF assms(2), of p] show "path_exists src p" by (simp add: assms(3))
qed









lemma write_stats_replica [simp]:
  "replica (write_stats_to_logging_file st) = replica st"
  by (simp add: write_stats_to_logging_file_def Let_def)

lemma write_stats_stats [simp]:
  "changes_stats (write_stats_to_logging_file st) = zero_stats"
  by (simp add: write_stats_to_logging_file_def Let_def)






lemma state_eqI:
  "replica st1 = replica st2 \<Longrightarrow> changes_stats st1 = changes_stats st2 \<Longrightarrow>
   st1\<lparr>logger := []\<rparr> = (st2 :: state)\<lparr>logger := []\<rparr>"
  by (cases st1; cases st2) simp

lemma source_entry_drop_log:
  "replica (sync_source_entry env src p st) =
     replica (sync_source_entry env src p (st\<lparr>logger := []\<rparr>)) \<and>
   changes_stats (sync_source_entry env src p st) =
     changes_stats (sync_source_entry env src p (st\<lparr>logger := []\<rparr>))"
  by (simp add: sync_source_entry_def Let_def split: option.splits node.splits sum.splits prod.splits)

lemma replica_entry_drop_log:
  "replica (sync_replica_entry env src p st) =
     replica (sync_replica_entry env src p (st\<lparr>logger := []\<rparr>)) \<and>
   changes_stats (sync_replica_entry env src p st) =
     changes_stats (sync_replica_entry env src p (st\<lparr>logger := []\<rparr>))"
  by (simp add: sync_replica_entry_def Let_def split: sum.splits)

lemma source_entry_forgets_log:
  assumes "replica st1 = replica st2" and "changes_stats st1 = changes_stats st2"
  shows "replica (sync_source_entry env src p st1) = replica (sync_source_entry env src p st2) \<and>
         changes_stats (sync_source_entry env src p st1) =
         changes_stats (sync_source_entry env src p st2)"
proof -
  have "sync_source_entry env src p (st1\<lparr>logger := []\<rparr>) =
        sync_source_entry env src p (st2\<lparr>logger := []\<rparr>)"
    by (rule arg_cong [OF state_eqI [OF assms]])
  with source_entry_drop_log [of env src p st1] source_entry_drop_log [of env src p st2]
  show ?thesis by metis
qed

lemma replica_entry_forgets_log:
  assumes "replica st1 = replica st2" and "changes_stats st1 = changes_stats st2"
  shows "replica (sync_replica_entry env src p st1) = replica (sync_replica_entry env src p st2) \<and>
         changes_stats (sync_replica_entry env src p st1) =
         changes_stats (sync_replica_entry env src p st2)"
proof -
  have "sync_replica_entry env src p (st1\<lparr>logger := []\<rparr>) =
        sync_replica_entry env src p (st2\<lparr>logger := []\<rparr>)"
    by (rule arg_cong [OF state_eqI [OF assms]])
  with replica_entry_drop_log [of env src p st1] replica_entry_drop_log [of env src p st2]
  show ?thesis by metis
qed

lemma source_fold_forgets_log:
  assumes "replica st1 = replica st2" and "changes_stats st1 = changes_stats st2"
  shows "replica (fold (sync_source_entry env src) ps st1) =
         replica (fold (sync_source_entry env src) ps st2) \<and>
         changes_stats (fold (sync_source_entry env src) ps st1) =
         changes_stats (fold (sync_source_entry env src) ps st2)"
  using assms
proof (induction ps arbitrary: st1 st2)
  case Nil
  then show ?case by simp
next
  case (Cons p ps)
  from source_entry_forgets_log [OF Cons.prems, of env src p]
  have "replica (sync_source_entry env src p st1) = replica (sync_source_entry env src p st2)"
    and "changes_stats (sync_source_entry env src p st1) =
         changes_stats (sync_source_entry env src p st2)"
    by blast+
  from Cons.IH [OF this] show ?case by simp
qed

lemma replica_fold_forgets_log:
  assumes "replica st1 = replica st2" and "changes_stats st1 = changes_stats st2"
  shows "replica (fold (sync_replica_entry env src) ps st1) =
         replica (fold (sync_replica_entry env src) ps st2) \<and>
         changes_stats (fold (sync_replica_entry env src) ps st1) =
         changes_stats (fold (sync_replica_entry env src) ps st2)"
  using assms
proof (induction ps arbitrary: st1 st2)
  case Nil
  then show ?case by simp
next
  case (Cons p ps)
  from replica_entry_forgets_log [OF Cons.prems, of env src p]
  have "replica (sync_replica_entry env src p st1) = replica (sync_replica_entry env src p st2)"
    and "changes_stats (sync_replica_entry env src p st1) =
         changes_stats (sync_replica_entry env src p st2)"
    by blast+
  from Cons.IH [OF this] show ?case by simp
qed

lemma pass_forgets_log:
  assumes "replica st1 = replica st2" and "changes_stats st1 = changes_stats st2"
  shows "changes_stats (synchronize_folders env src st1) =
         changes_stats (synchronize_folders env src st2)"
proof -
  let ?m1 = "source_walk env src st1" and ?m2 = "source_walk env src st2"
  from source_fold_forgets_log [OF assms, of env src "rglob [] src"]
  have m: "replica ?m1 = replica ?m2" "changes_stats ?m1 = changes_stats ?m2"
    unfolding source_walk_def by blast+
  from replica_fold_forgets_log [OF m, of env src "rglob [] (replica ?m1)"]
  have "changes_stats (fold (sync_replica_entry env src) (rglob [] (replica ?m1)) ?m1) =
        changes_stats (fold (sync_replica_entry env src) (rglob [] (replica ?m1)) ?m2)" ..
  then show ?thesis
    unfolding synchronize_folders_def replica_walk_def m(1) .
qed




section \<open>The claims\<close>

subsection \<open>C1: what the first loop does with a file of the source\<close>

text \<open>
  Claim C1. Let \<open>p\<close> be a path the first loop meets that is a file of the source, with
  bytes \<open>c\<close> and time \<open>m\<close>; the replica path is the same \<open>p\<close> below the replica
  root. If the replica path does not exist, the file is copied and \<^verbatim>\<open>Files created\<close>
  grows by one. If it exists, with the size \<open>sz\<close> and the time \<open>mt\<close> that
  \<^verbatim>\<open>stat\<close> reports, and the sizes differ or \<open>m > mt\<close>, the file is copied again and
  \<^verbatim>\<open>Files changed/copied\<close> grows by one. If it exists with the same size and
  \<open>m \<le> mt\<close>, the state is left as it is: the replica is untouched and no counter moves.
  Here \<open>r\<close> is the replica the copy returns when it does not raise; over a replica file
  or a free name it has the source's bytes and time at \<open>p\<close>.
\<close>

theorem source_file_is_created_updated_or_left:
  assumes "lookup src p = Some (File c m)"
  shows
    "(\<not> path_exists (replica st) p \<and>
      copy2 env (File c m) (last p) p (replica st) = Inr r \<longrightarrow>
        sync_source_entry env src p st =
          st\<lparr>replica := r,
             logger := logger st @
               [(INFO, ''Created and copied '' @ joinpath (source_folder_path env) p @
                       '' to '' @ joinpath (replica_folder_path env) p)],
             changes_stats := (changes_stats st)
               \<lparr>files_created := files_created (changes_stats st) + 1\<rparr>\<rparr> \<and>
        lookup r p = Some (File c m)) \<and>
     (path_exists (replica st) p \<and> stat env (replica st) p = Inr (sz, mt) \<and>
      (length c \<noteq> sz \<or> m > mt) \<and>
      copy2 env (File c m) (last p) p (replica st) = Inr r \<longrightarrow>
        sync_source_entry env src p st =
          st\<lparr>replica := r,
             logger := logger st @
               [(INFO, ''Copied '' @ joinpath (source_folder_path env) p @
                       '' to '' @ joinpath (replica_folder_path env) p)],
             changes_stats := (changes_stats st)
               \<lparr>files_changed := files_changed (changes_stats st) + 1\<rparr>\<rparr> \<and>
        (is_file (replica st) p \<longrightarrow> lookup r p = Some (File c m))) \<and>
     (path_exists (replica st) p \<and> stat env (replica st) p = Inr (sz, mt) \<and>
      length c = sz \<and> m \<le> mt \<longrightarrow>
        sync_source_entry env src p st = st)"
proof (intro conjI impI)
  assume h: "\<not> path_exists (replica st) p \<and>
      copy2 env (File c m) (last p) p (replica st) = Inr r"
  with assms show "sync_source_entry env src p st =
          st\<lparr>replica := r,
             logger := logger st @
               [(INFO, ''Created and copied '' @ joinpath (source_folder_path env) p @
                       '' to '' @ joinpath (replica_folder_path env) p)],
             changes_stats := (changes_stats st)
               \<lparr>files_created := files_created (changes_stats st) + 1\<rparr>\<rparr>"
    by (simp add: sync_source_entry_def Let_def)
  from h have "entry (replica st) p \<noteq> Some (Dir [])" by (simp add: path_exists_entry)
  with copy2_effect [of env c m "last p" p "replica st" r] h
  show "lookup r p = Some (File c m)" by (auto simp: lookup_File_entry)
next
  assume h: "path_exists (replica st) p \<and> stat env (replica st) p = Inr (sz, mt) \<and>
      (length c \<noteq> sz \<or> m > mt) \<and>
      copy2 env (File c m) (last p) p (replica st) = Inr r"
  with assms show "sync_source_entry env src p st =
          st\<lparr>replica := r,
             logger := logger st @
               [(INFO, ''Copied '' @ joinpath (source_folder_path env) p @
                       '' to '' @ joinpath (replica_folder_path env) p)],
             changes_stats := (changes_stats st)
               \<lparr>files_changed := files_changed (changes_stats st) + 1\<rparr>\<rparr>"
    by (auto simp: sync_source_entry_def Let_def)
  assume "is_file (replica st) p"
  then have "entry (replica st) p \<noteq> Some (Dir [])" by (auto simp: is_file_entry)
  with copy2_effect [of env c m "last p" p "replica st" r] h
  show "lookup r p = Some (File c m)" by (auto simp: lookup_File_entry)
next
  assume "path_exists (replica st) p \<and> stat env (replica st) p = Inr (sz, mt) \<and>
      length c = sz \<and> m \<le> mt"
  with assms show "sync_source_entry env src p st = st"
    by (auto simp: sync_source_entry_def Let_def)
qed

theorem source_file_is_created_updated_or_left_witness:
  "lookup scenario_source [''a.txt''] = Some (File ''hello'' 10) \<and>
   \<not> path_exists (replica (fresh (Dir []))) [''a.txt''] \<and>
   changes_stats (sync_source_entry example_env scenario_source [''a.txt''] (fresh (Dir []))) =
     zero_stats\<lparr>files_created := 1\<rparr> \<and>
   stat example_env (replica (fresh (Dir [(''a.txt'', File ''old'' 5)]))) [''a.txt''] = Inr (3, 5) \<and>
   changes_stats (sync_source_entry example_env scenario_source [''a.txt'']
     (fresh (Dir [(''a.txt'', File ''old'' 5)]))) = zero_stats\<lparr>files_changed := 1\<rparr> \<and>
   replica (sync_source_entry example_env scenario_source [''a.txt'']
     (fresh (Dir [(''a.txt'', File ''old'' 5)]))) = Dir [(''a.txt'', File ''hello'' 10)] \<and>
   stat example_env (replica (fresh (Dir [(''a.txt'', File ''HELLO'' 10)]))) [''a.txt''] =
     Inr (5, 10) \<and>
   sync_source_entry example_env scenario_source [''a.txt'']
     (fresh (Dir [(''a.txt'', File ''HELLO'' 10)])) = fresh (Dir [(''a.txt'', File ''HELLO'' 10)])"
proof -
  let ?new = "Dir [(''a.txt'', File ''hello'' 10)]"
  have s: "lookup scenario_source [''a.txt''] = Some (File ''hello'' 10)" by code_simp
  have a1: "\<not> path_exists (replica (fresh (Dir []))) [''a.txt'']" by code_simp
  have a2: "copy2 example_env (File ''hello'' 10) (last [''a.txt'']) [''a.txt'']
              (replica (fresh (Dir []))) = Inr ?new" by code_simp
  have b1: "path_exists (replica (fresh (Dir [(''a.txt'', File ''old'' 5)]))) [''a.txt'']"
    by code_simp
  have b2: "stat example_env (replica (fresh (Dir [(''a.txt'', File ''old'' 5)]))) [''a.txt''] =
              Inr (3, 5)" by code_simp
  have b3: "copy2 example_env (File ''hello'' 10) (last [''a.txt'']) [''a.txt'']
              (replica (fresh (Dir [(''a.txt'', File ''old'' 5)]))) = Inr ?new" by code_simp
  have c1: "path_exists (replica (fresh (Dir [(''a.txt'', File ''HELLO'' 10)]))) [''a.txt'']"
    by code_simp
  have c2: "stat example_env (replica (fresh (Dir [(''a.txt'', File ''HELLO'' 10)]))) [''a.txt''] =
              Inr (5, 10)" by code_simp
  from source_file_is_created_updated_or_left
    [OF s, where st = "fresh (Dir [])" and env = example_env and r = ?new] a1 a2
  have A: "changes_stats (sync_source_entry example_env scenario_source [''a.txt'']
      (fresh (Dir []))) = zero_stats\<lparr>files_created := 1\<rparr>"
    by (simp add: fresh_def zero_stats_def)
  from source_file_is_created_updated_or_left
    [OF s, where st = "fresh (Dir [(''a.txt'', File ''old'' 5)])" and env = example_env
       and sz = 3 and mt = 5 and r = ?new] b1 b2 b3
  have B: "changes_stats (sync_source_entry example_env scenario_source [''a.txt'']
        (fresh (Dir [(''a.txt'', File ''old'' 5)]))) = zero_stats\<lparr>files_changed := 1\<rparr> \<and>
      replica (sync_source_entry example_env scenario_source [''a.txt'']
        (fresh (Dir [(''a.txt'', File ''old'' 5)]))) = ?new"
    by (simp add: fresh_def zero_stats_def)
  from source_file_is_created_updated_or_left
    [OF s, where st = "fresh (Dir [(''a.txt'', File ''HELLO'' 10)])" and env = example_env
       and sz = 5 and mt = 10] c1 c2
  have C: "sync_source_entry example_env scenario_source [''a.txt'']
     (fresh (Dir [(''a.txt'', File ''HELLO'' 10)])) = fresh (Dir [(''a.txt'', File ''HELLO'' 10)])"
    by simp
  from s a1 A b2 B c2 C show ?thesis by simp
qed

subsection \<open>C2: after a pass the replica has every entry of the source\<close>




subsection \<open>C3: the second loop removes the orphans and nothing else\<close>



subsection \<open>C4: a second pass has nothing to do\<close>

text \<open>
  Claim C4, amended. The claim as written fails where a file of the source has a
  directory at its path in the replica: every pass copies the file into that directory
  and deletes the copy again (see the counterexample below). When no file of the source
  has a directory at its path in the replica, and the first pass logs no failure, a
  second pass over the same source, started after the report has reset the counters,
  changes nothing: the state it returns is the state it was given, so no record is
  logged and every counter is zero. The environment of the second pass is arbitrary.
\<close>

theorem second_pass_takes_no_action:
  assumes "files_not_dirs src (replica st)"
    and "errors (logger (synchronize_folders env src st)) = errors (logger st)"
  shows "synchronize_folders env' src (write_stats_to_logging_file (synchronize_folders env src st)) =
           write_stats_to_logging_file (synchronize_folders env src st) \<and>
         changes_stats (synchronize_folders env' src
           (write_stats_to_logging_file (synchronize_folders env src st))) = zero_stats"
proof -
  let ?st' = "write_stats_to_logging_file (synchronize_folders env src st)"
  have "replica ?st' = replica (synchronize_folders env src st)" by simp
  from second_pass_idle [OF assms this, of env']
  have "synchronize_folders env' src ?st' = ?st'" .
  then show ?thesis by simp
qed

theorem second_pass_takes_no_action_witness:
  "files_not_dirs scenario_source (replica (fresh (Dir []))) \<and>
   errors (logger (synchronize_folders example_env scenario_source (fresh (Dir [])))) =
     errors (logger (fresh (Dir []))) \<and>
   changes_stats (synchronize_folders example_env scenario_source
     (write_stats_to_logging_file (synchronize_folders example_env scenario_source
        (fresh (Dir []))))) = zero_stats"
proof -
  have a: "files_not_dirs scenario_source (replica (fresh (Dir [])))" by code_simp
  have b: "errors (logger (synchronize_folders example_env scenario_source (fresh (Dir [])))) =
     errors (logger (fresh (Dir [])))" by code_simp
  from second_pass_takes_no_action [OF a b, of example_env] a b
  show ?thesis by blast
qed

text \<open>
  With the file \<^verbatim>\<open>a\<close> in the source and the directory \<^verbatim>\<open>a\<close> in the replica, the
  second pass again counts one file copied and one file deleted.
\<close>

theorem second_pass_takes_no_action_counterexample:
  "files_changed (changes_stats (synchronize_folders example_env source_file_a
     (write_stats_to_logging_file
        (synchronize_folders example_env source_file_a (fresh replica_dir_a))))) = 1 \<and>
   files_deleted (changes_stats (synchronize_folders example_env source_file_a
     (write_stats_to_logging_file
        (synchronize_folders example_env source_file_a (fresh replica_dir_a))))) = 1"
  by code_simp

subsection \<open>C5: a failed action is logged and the walk goes on\<close>



subsection \<open>C6: what the copy does, and what it does not\<close>




subsection \<open>C7: the report resets the counters\<close>

text \<open>
  Claim C7. The report appends one record, the five counters in the order of the
  dictionary as \<^verbatim>\<open>key = value\<close> joined by \<^verbatim>\<open>; \<close> and followed by a newline, and
  leaves every counter at zero and the replica as it is. So the counters after the next
  pass, which are what the next report prints, are those of that pass run alone from
  zero counters and an empty log: nothing counted before the report enters them.
\<close>

theorem report_emits_the_counters_and_resets_them:
  "logger (write_stats_to_logging_file st) = logger st @
     [(INFO, ''Files created = '' @ str_int (files_created (changes_stats st)) @
             ''; Files changed/copied = '' @ str_int (files_changed (changes_stats st)) @
             ''; Directories created = '' @ str_int (directories_created (changes_stats st)) @
             ''; Files deleted = '' @ str_int (files_deleted (changes_stats st)) @
             ''; Directories deleted = '' @ str_int (directories_deleted (changes_stats st)) @
             [CHR 0x0A])] \<and>
   changes_stats (write_stats_to_logging_file st) = zero_stats \<and>
   replica (write_stats_to_logging_file st) = replica st \<and>
   changes_stats (synchronize_folders env src (write_stats_to_logging_file st)) =
   changes_stats (synchronize_folders env src
     \<lparr>replica = replica st, changes_stats = zero_stats, logger = []\<rparr>)"
proof (intro conjI)
  show "logger (write_stats_to_logging_file st) = logger st @
     [(INFO, ''Files created = '' @ str_int (files_created (changes_stats st)) @
             ''; Files changed/copied = '' @ str_int (files_changed (changes_stats st)) @
             ''; Directories created = '' @ str_int (directories_created (changes_stats st)) @
             ''; Files deleted = '' @ str_int (files_deleted (changes_stats st)) @
             ''; Directories deleted = '' @ str_int (directories_deleted (changes_stats st)) @
             [CHR 0x0A])]"
    by (simp add: write_stats_to_logging_file_def items_def Let_def)
  show "changes_stats (write_stats_to_logging_file st) = zero_stats" by simp
  show "replica (write_stats_to_logging_file st) = replica st" by simp
  show "changes_stats (synchronize_folders env src (write_stats_to_logging_file st)) =
   changes_stats (synchronize_folders env src
     \<lparr>replica = replica st, changes_stats = zero_stats, logger = []\<rparr>)"
    by (rule pass_forgets_log) simp_all
qed

theorem report_emits_the_counters_and_resets_them_witness:
  "logger (write_stats_to_logging_file
     (synchronize_folders example_env scenario_source (fresh (Dir [])))) =
   [(INFO, ''Created and copied /s/a.txt to /r/a.txt''),
    (INFO, ''Created new directory: /s/sub in /r/sub''),
    (INFO, ''Created and copied /s/sub/b.txt to /r/sub/b.txt''),
    (INFO, ''Files created = 2; Files changed/copied = 0; Directories created = 1; '' @
           ''Files deleted = 0; Directories deleted = 0'' @ [CHR 0x0A])] \<and>
   changes_stats (write_stats_to_logging_file
     (synchronize_folders example_env scenario_source (fresh (Dir [])))) = zero_stats"
proof -
  let ?st = "synchronize_folders example_env scenario_source (fresh (Dir []))"
  have a: "logger ?st @
     [(INFO, ''Files created = '' @ str_int (files_created (changes_stats ?st)) @
             ''; Files changed/copied = '' @ str_int (files_changed (changes_stats ?st)) @
             ''; Directories created = '' @ str_int (directories_created (changes_stats ?st)) @
             ''; Files deleted = '' @ str_int (files_deleted (changes_stats ?st)) @
             ''; Directories deleted = '' @ str_int (directories_deleted (changes_stats ?st)) @
             [CHR 0x0A])] =
   [(INFO, ''Created and copied /s/a.txt to /r/a.txt''),
    (INFO, ''Created new directory: /s/sub in /r/sub''),
    (INFO, ''Created and copied /s/sub/b.txt to /r/sub/b.txt''),
    (INFO, ''Files created = 2; Files changed/copied = 0; Directories created = 1; '' @
           ''Files deleted = 0; Directories deleted = 0'' @ [CHR 0x0A])]" by code_simp
  from report_emits_the_counters_and_resets_them [of ?st example_env scenario_source] a
  show ?thesis by metis
qed

subsection \<open>C8: the start and the loop\<close>




subsection \<open>C9: the stale directory\<close>

text \<open>
  Claim C9. The replica holds the directory \<^verbatim>\<open>old\<close> with the file
  \<^verbatim>\<open>old/stale.txt\<close>, the source is empty, the counters are zero, and the removal of
  \<^verbatim>\<open>old\<close> is not refused. One pass removes \<^verbatim>\<open>old\<close> with its content and counts
  one directory deleted; every other counter, \<^verbatim>\<open>Files deleted\<close> too, stays zero, and
  the only record logged is the deletion of the directory.
\<close>

theorem stale_directory_is_removed_as_a_unit:
  assumes "\<not> fault env (Rmtree [''old''])"
  shows "synchronize_folders env (Dir [])
           \<lparr>replica = Dir [(''old'', Dir [(''stale.txt'', File c m)])],
            changes_stats = zero_stats, logger = []\<rparr> =
         \<lparr>replica = Dir [],
          changes_stats = \<lparr>files_created = 0, files_changed = 0, directories_created = 0,
                           files_deleted = 0, directories_deleted = 1\<rparr>,
          logger = [(INFO, ''Deleted directory: '' @ replica_folder_path env @ ''/old'')]\<rparr>"
  using assms
  by (simp add: synchronize_folders_def source_walk_def replica_walk_def
      sync_replica_entry_def is_file_def is_dir_def path_exists_def rmtree_def
      joinpath_def zero_stats_def Let_def)

theorem stale_directory_is_removed_as_a_unit_witness:
  "\<not> fault example_env (Rmtree [''old'']) \<and>
   synchronize_folders example_env (Dir [])
           \<lparr>replica = Dir [(''old'', Dir [(''stale.txt'', File ''x'' 2)])],
            changes_stats = zero_stats, logger = []\<rparr> =
         \<lparr>replica = Dir [],
          changes_stats = \<lparr>files_created = 0, files_changed = 0, directories_created = 0,
                           files_deleted = 0, directories_deleted = 1\<rparr>,
          logger = [(INFO, ''Deleted directory: /r/old'')]\<rparr>"
proof -
  have a: "\<not> fault example_env (Rmtree [''old''])" by code_simp
  have b: "''Deleted directory: '' @ replica_folder_path example_env @ ''/old'' =
     ''Deleted directory: /r/old''" by code_simp
  from stale_directory_is_removed_as_a_unit [OF a, of "''x''" 2] a b show ?thesis by simp
qed

subsection \<open>C10: an entry of the wrong kind is left in place\<close>




end
